theory Spec2Isabelle
  imports Main "HOL-Library.AList"
begin

section \<open>The remove command of now-cli and its error classes\<close>

text \<open>
  The development embeds the \<open>remove\<close> command (its \<open>main\<close> function and
  \<open>readConfirmation\<close>) and the error classes of \<open>util/errors-ts.ts\<close>.
  A JavaScript string is a list of code units; the model covers the code units
  \<open>U+0000\<close> to \<open>U+00FF\<close>, one \<^typ>\<open>char\<close> each. Numbers are mathematical
  integers (values beyond \<open>2^53\<close>, where a double rounds, are outside the model).
\<close>

subsection \<open>Strings\<close>

definition isWhiteSpace :: "char \<Rightarrow> bool" where
  \<comment> \<open>White space and line terminators of ECMAScript below \<open>U+0100\<close>:
      TAB, LF, VT, FF, CR, SP and NBSP.\<close>
  "isWhiteSpace c = ((of_char c :: nat) \<in> {9, 10, 11, 12, 13, 32, 160})"

definition trim :: "string \<Rightarrow> string" where
  \<comment> \<open>\<open>String.prototype.trim\<close>\<close>
  "trim s = rev (dropWhile isWhiteSpace (rev (dropWhile isWhiteSpace s)))"

definition toLowerCaseChar :: "char \<Rightarrow> char" where
  \<comment> \<open>The upper-case letters below \<open>U+0100\<close> are \<open>A\<close> to \<open>Z\<close> and \<open>U+00C0\<close> to
      \<open>U+00DE\<close> without the multiplication sign \<open>U+00D7\<close>; each lower-case
      counterpart lies 32 above.\<close>
  "toLowerCaseChar c =
     (let n = (of_char c :: nat)
      in if (65 \<le> n \<and> n \<le> 90) \<or> (192 \<le> n \<and> n \<le> 222 \<and> n \<noteq> 215)
         then char_of (n + 32) else c)"

definition toLowerCase :: "string \<Rightarrow> string" where
  \<comment> \<open>\<open>String.prototype.toLowerCase\<close>\<close>
  "toLowerCase s = map toLowerCaseChar s"

fun join :: "string \<Rightarrow> string list \<Rightarrow> string" where
  \<comment> \<open>\<open>Array.prototype.join\<close> on an array of strings\<close>
  "join sep [] = []"
| "join sep [x] = x"
| "join sep (x # y # ys) = x @ sep @ join sep (y # ys)"

function string_of_nat :: "nat \<Rightarrow> string" where
  \<comment> \<open>a non-negative integer inside a template literal\<close>
  "string_of_nat n =
     (if n < 10 then [char_of (48 + n)]
      else string_of_nat (n div 10) @ [char_of (48 + n mod 10)])"
  by pat_completeness auto
termination
  by (relation "measure (\<lambda>n. n)") auto

declare string_of_nat.simps [simp del]

subsection \<open>Deployments and the identifier resolver\<close>

record alias_t =
  alias' :: string
  \<comment> \<open>the field \<open>alias\<close> of an alias object (the plain name is an Isabelle keyword)\<close>

record deployment =
  uid :: string
  name :: string
  url :: string
  created :: int
  aliases :: "alias_t list option"
  \<comment> \<open>\<open>aliases\<close> is not part of the fetched object (\<open>None\<close> is \<open>undefined\<close>);
      the safety filter assigns it.\<close>

fun after_scheme :: "string \<Rightarrow> string option" where
  "after_scheme [] = None"
| "after_scheme (c # cs) =
     (if take 3 (c # cs) = ''://'' then Some (drop 3 (c # cs)) else after_scheme cs)"

definition normalizeURL :: "string \<Rightarrow> string" where
  \<comment> \<open>Modelled from the spec: \<open>normalizeURL\<close> of \<open>util/url\<close> is not among the
      sources. The spec: normalization strips the scheme and the trailing slash, so
      that \<open>https://foo.com/\<close> and \<open>foo.com\<close> compare equal.\<close>
  "normalizeURL u =
     (let r = (case after_scheme u of None \<Rightarrow> u | Some r \<Rightarrow> r)
      in if r \<noteq> [] \<and> last r = CHR ''/'' then butlast r else r)"

definition resolve :: "(string \<Rightarrow> string) \<Rightarrow> string list \<Rightarrow> deployment list \<Rightarrow> deployment list" where
  \<comment> \<open>\<open>deployments.filter(d => ids.some(id => d.uid === id || d.name === id ||
      d.url === normalizeURL(id)))\<close>, with \<open>normalizeURL\<close> as the parameter \<open>nu\<close>\<close>
  "resolve nu ids deployments =
     filter (\<lambda>d. list_ex (\<lambda>id. uid d = id \<or> name d = id \<or> url d = nu id) ids) deployments"

definition resolve_spec :: "(string \<Rightarrow> string) \<Rightarrow> string list \<Rightarrow> deployment list \<Rightarrow> deployment list" where
  \<comment> \<open>The resolver in the spec's words: the deployments \<open>d\<close> for which some identifier
      \<open>i\<close> has \<open>i == d.uid\<close>, \<open>i == d.name\<close> or \<open>normalize(i) == normalize(d.url)\<close>.\<close>
  "resolve_spec nu ids deployments =
     filter (\<lambda>d. list_ex (\<lambda>i. i = uid d \<or> i = name d \<or> nu i = nu (url d)) ids) deployments"

definition foo_deployment :: deployment where
  "foo_deployment =
     \<lparr>uid = ''a1'', name = ''app'', url = ''https://foo.com/'', created = 0, aliases = None\<rparr>"

subsection \<open>JavaScript values and the error classes\<close>

datatype jsval = Str string | Num int | NaN | Undefined | Obj "(string \<times> jsval) list"

text \<open>
  An object is the list of its own properties in insertion order, with distinct keys:
  \<open>map_of obj f\<close> reads the property \<open>f\<close> (\<open>None\<close> is \<open>undefined\<close>) and
  \<open>AList.update f v obj\<close> is the assignment \<open>obj[f] = v\<close>.
\<close>

type_synonym object = "(string \<times> jsval) list"

definition get_prop :: "object \<Rightarrow> string \<Rightarrow> jsval" where
  "get_prop obj f = (case map_of obj f of None \<Rightarrow> Undefined | Some v \<Rightarrow> v)"

definition NowError :: "string \<Rightarrow> string \<Rightarrow> object \<Rightarrow> object" where
  \<comment> \<open>Modelled from the spec: the class \<open>NowError\<close> of \<open>util/now-error\<close> is not among
      the sources. The spec: a structured error value carrying a machine-readable code,
      a human message and a metadata payload.\<close>
  "NowError code message meta = [(''code'', Str code), (''message'', Str message), (''meta'', Obj meta)]"

definition TeamDeleted :: "(string \<Rightarrow> string) \<Rightarrow> object" where
  \<comment> \<open>\<open>param\<close> of \<open>util/output/param\<close> is a parameter\<close>
  "TeamDeleted param =
     NowError ''team_deleted''
       (''Your team was deleted. You can switch to a different one using '' @ param ''now switch'' @ ''.'')
       []"

definition InvalidToken :: object where
  "InvalidToken = NowError ''not_authorized'' ''The specified token is not valid'' []"

definition MissingUser :: object where
  "MissingUser = NowError ''missing_user'' ''Not able to load user, missing from response'' []"

definition ConflictingOption :: "string \<Rightarrow> object" where
  "ConflictingOption name' =
     NowError ''conflicting_option''
       (''You can'' @ [CHR 0x27] @ ''t use at the same time a positive and negative value for option '' @ name')
       [(''name'', Str name')]"

definition DomainPermissionDenied :: "string \<Rightarrow> string \<Rightarrow> object" where
  "DomainPermissionDenied domain context' =
     NowError ''DOMAIN_PERMISSION_DENIED''
       (''You don'' @ [CHR 0x27] @ ''t have access to the domain '' @ domain @ '' under '' @ context' @ ''.'')
       [(''domain'', Str domain), (''context'', Str context')]"

definition DomainNotFound :: "string \<Rightarrow> object" where
  "DomainNotFound domain =
     NowError ''DOMAIN_NOT_FOUND''
       (''The domain '' @ domain @ '' can'' @ [CHR 0x27] @ ''t be found.'')
       [(''domain'', Str domain)]"

record response =
  status :: nat
  headers_get :: "string \<Rightarrow> string option"
  \<comment> \<open>\<open>response.headers.get(name)\<close>; \<open>None\<close> is \<open>null\<close>\<close>

definition isDigit :: "char \<Rightarrow> bool" where
  "isDigit c = (48 \<le> (of_char c :: nat) \<and> (of_char c :: nat) \<le> 57)"

definition digits_value :: "string \<Rightarrow> nat" where
  "digits_value ds = foldl (\<lambda>acc c. 10 * acc + (of_char c - 48)) 0 ds"

definition parseInt10 :: "string \<Rightarrow> jsval" where
  \<comment> \<open>\<open>parseInt(s, 10)\<close>: leading white space, an optional sign, then the longest run
      of decimal digits; \<open>NaN\<close> when there is none.\<close>
  "parseInt10 s =
     (let t = dropWhile isWhiteSpace s;
          neg = (t \<noteq> [] \<and> hd t = CHR ''-'');
          r = (if t \<noteq> [] \<and> (hd t = CHR ''-'' \<or> hd t = CHR ''+'') then tl t else t);
          ds = takeWhile isDigit r
      in if ds = [] then NaN
         else Num ((if neg then - 1 else 1) * int (digits_value ds)))"

definition copy_body :: "object \<Rightarrow> object \<Rightarrow> object" where
  \<comment> \<open>\<open>for (const field of Object.keys(body)) if (field !== 'message') this[field] = body[field]\<close>\<close>
  "copy_body body this =
     fold (\<lambda>(field, v) obj. if field \<noteq> ''message'' then AList.update field v obj else obj) body this"

definition APIError :: "string \<Rightarrow> response \<Rightarrow> object option \<Rightarrow> object" where
  \<comment> \<open>the constructor of \<open>APIError\<close>, a subclass of \<open>Error\<close> (not of \<open>NowError\<close>)\<close>
  "APIError message response body =
     (let o1 = AList.update ''message''
                 (Str (message @ '' ('' @ string_of_nat (status response) @ '')'')) [];
          o2 = AList.update ''status'' (Num (int (status response))) o1;
          o3 = AList.update ''serverMessage'' (Str message) o2;
          o4 = (case body of None \<Rightarrow> o3 | Some b \<Rightarrow> copy_body b o3)
      in if status response = 429
         then (case headers_get response ''Retry-After'' of
                 None \<Rightarrow> o4
               | Some retryAfter \<Rightarrow>
                   if retryAfter \<noteq> [] then AList.update ''retryAfter'' (parseInt10 retryAfter) o4
                   else o4)
         else o4)"

definition TypeError :: "string \<Rightarrow> object" where
  \<comment> \<open>the error the runtime throws at a property read of \<open>undefined\<close>\<close>
  "TypeError message = [(''name'', Str ''TypeError''), (''message'', Str message)]"

definition not_found_response :: response where
  "not_found_response = \<lparr>status = 404, headers_get = (\<lambda>h. None)\<rparr>"

definition rate_limit_response :: response where
  "rate_limit_response =
     \<lparr>status = 429, headers_get = (\<lambda>h. if h = ''Retry-After'' then Some ''120'' else None)\<rparr>"

subsection \<open>Promises\<close>

datatype 'a settled = Fulfilled 'a | Rejected object | Pending

definition Promise_all :: "nat list \<Rightarrow> (object + 'a) list \<Rightarrow> 'a list settled" where
  \<comment> \<open>\<open>Promise.all\<close> over an array of requests. \<open>rs ! i\<close> is what request \<open>i\<close> settles
      with (\<open>Inl\<close> a rejection), and \<open>order\<close> lists the indices in the order in which the
      requests settle; a request whose index is not listed never settles. The aggregate
      rejects with the first rejection in that order, is fulfilled with the values by
      index once every request is fulfilled, and stays pending otherwise.\<close>
  "Promise_all order rs =
     (case find (\<lambda>i. i < length rs \<and> isl (rs ! i)) order of
        Some i \<Rightarrow> Rejected (projl (rs ! i))
      | None \<Rightarrow>
          if list_all (\<lambda>i. i \<in> set order) [0 ..< length rs]
          then Fulfilled (map projr rs) else Pending)"

subsection \<open>The safety filter\<close>

fun safetyFilter :: "bool \<Rightarrow> alias_t list list \<Rightarrow> nat \<Rightarrow> deployment list \<Rightarrow> object + deployment list" where
  \<comment> \<open>\<open>matches.filter((match, i) => ...)\<close> from index \<open>i\<close> on. Beyond the end of
      \<open>aliases\<close> the read \<open>aliases[i]\<close> is \<open>undefined\<close>: its \<open>length\<close> throws in safe
      mode, and otherwise \<open>undefined\<close> is assigned.\<close>
  "safetyFilter safe als i [] = Inr []"
| "safetyFilter safe als i (match # rest) =
     (if i < length als then
        (if safe \<and> length (als ! i) > 0 then safetyFilter safe als (i + 1) rest
         else (case safetyFilter safe als (i + 1) rest of
                 Inl err \<Rightarrow> Inl err
               | Inr r \<Rightarrow> Inr (match\<lparr>aliases := Some (als ! i)\<rparr> # r)))
      else if safe then Inl (TypeError ''Cannot read property length of undefined'')
      else (case safetyFilter safe als (i + 1) rest of
              Inl err \<Rightarrow> Inl err
            | Inr r \<Rightarrow> Inr (match\<lparr>aliases := None\<rparr> # r)))"

subsection \<open>The workflow of the remove command\<close>

record argv =
  argv_help :: bool
  argv_debug :: bool
  argv_hard :: bool
  argv_yes :: bool
  argv_safe :: bool
  argv_positional :: "string list"
  \<comment> \<open>the result of \<open>mri\<close>: the flags \<open>help\<close>, \<open>debug\<close>, \<open>hard\<close>, \<open>yes\<close>, \<open>safe\<close> and the
      positional arguments \<open>_\<close>, the subcommand first\<close>

record deps =
  dep_cmd :: "string \<Rightarrow> string"
  dep_chalk :: "string \<Rightarrow> string \<Rightarrow> string"
  dep_normalizeURL :: "string \<Rightarrow> string"
  \<comment> \<open>helpers that are not among the sources: \<open>cmd\<close> of \<open>util/output/cmd\<close>, the styles
      of \<open>chalk\<close> by name, and \<open>normalizeURL\<close>\<close>

record world =
  getScope :: "string settled"
  now_list :: "deployment list settled"
  getAliases :: "string \<Rightarrow> object + alias_t list"
  aliases_settle :: "nat list"
  stdin_data :: "string option"
  now_remove :: "string \<Rightarrow> bool \<Rightarrow> object + unit"
  remove_settle :: "nat list"
  \<comment> \<open>what the collaborators answer in one run: the scope resolver (the context name),
      the deployment listing, the alias lookup and the removal by uid with the orders in
      which these requests settle, and the chunk that arrives on standard input
      (\<open>None\<close>: none ever arrives)\<close>

datatype event =
    OutError jsval
  | ShowHelp
  | GetScope
  | Wait string
  | CancelWait
  | NowList
  | GetAliases string
  | Log string
  | LogFound nat string
  | LogToRemove nat
  | PrintTable "(string \<times> string) list"
  | Warn string
  | Prompt
  | NowClose
  | NowRemove string bool
  | Success nat
  | ConsoleLog string
  | ProcessExit nat

text \<open>
  A run of \<open>main\<close> is the list of its effects in order and how it ends: it returns an exit
  code, throws (the promise of \<open>main\<close> rejects), ends the process, or waits forever.
  Elapsed times and ages are left out of the messages.
\<close>

datatype result = Returned nat | Threw object | Exited nat | Hangs

definition quoted :: "string \<Rightarrow> string" where
  "quoted id' = [CHR 0x22] @ id' @ [CHR 0x22]"

definition removals :: "event list \<Rightarrow> string list" where
  \<comment> \<open>the uids of the removal requests of a run, in order\<close>
  "removals es = concat (map (\<lambda>e. case e of NowRemove u h \<Rightarrow> [u] | _ \<Rightarrow> []) es)"

definition removeBatch :: "deps \<Rightarrow> world \<Rightarrow> bool \<Rightarrow> deployment list \<Rightarrow> event list \<times> result" where
  \<comment> \<open>from \<open>const start = new Date()\<close> to the end of \<open>main\<close>\<close>
  "removeBatch dp w hard matches =
     (let requests = map (\<lambda>depl. NowRemove (uid depl) hard) matches
      in case Promise_all (remove_settle w) (map (\<lambda>depl. now_remove w (uid depl) hard) matches) of
           Pending \<Rightarrow> (requests, Hangs)
         | Rejected err \<Rightarrow> (requests, Threw err)
         | Fulfilled done \<Rightarrow>
             (requests @ [Success (length matches)]
                @ map (\<lambda>depl. ConsoleLog (dep_chalk dp ''gray'' ''-'' @ '' '' @ dep_chalk dp ''bold'' (url depl)))
                    matches
                @ [ProcessExit 0],
              Exited 0))"

fun aliasWarnings :: "deps \<Rightarrow> deployment list \<Rightarrow> event list \<times> object option" where
  \<comment> \<open>the two nested loops of \<open>readConfirmation\<close>; iterating \<open>undefined\<close> throws\<close>
  "aliasWarnings dp [] = ([], None)"
| "aliasWarnings dp (depl # rest) =
     (case aliases depl of
        None \<Rightarrow> ([], Some (TypeError ''depl.aliases is not iterable''))
      | Some als \<Rightarrow>
          (let (es, thrown) = aliasWarnings dp rest
           in (map (\<lambda>al. Warn (''Deployment '' @ dep_chalk dp ''bold'' (url depl) @ '' is an alias for ''
                              @ dep_chalk dp ''underline'' (''https://'' @ alias' al)
                              @ '' and will be removed.'')) als @ es,
               thrown)))"

definition readConfirmation :: "deps \<Rightarrow> world \<Rightarrow> deployment list \<Rightarrow> event list \<times> string settled" where
  "readConfirmation dp w matches =
     (let es = [LogToRemove (length matches),
                PrintTable (map (\<lambda>depl. (''  '' @ uid depl,
                                        if url depl \<noteq> [] then dep_chalk dp ''underline'' (''https://'' @ url depl)
                                        else []))
                              matches)];
          (ws, thrown) = aliasWarnings dp matches
      in case thrown of
           Some err \<Rightarrow> (es @ ws, Rejected err)
         | None \<Rightarrow>
             (case stdin_data w of
                None \<Rightarrow> (es @ ws @ [Prompt], Pending)
              | Some d \<Rightarrow> (es @ ws @ [Prompt], Fulfilled (trim d))))"

definition affirmative :: "string \<Rightarrow> bool" where
  \<comment> \<open>the test of \<open>main\<close> on what \<open>readConfirmation\<close> resolves with:
      not (\<open>confirmation !== 'y' && confirmation !== 'yes'\<close>)\<close>
  "affirmative answer =
     (let confirmation = toLowerCase answer
      in \<not> (confirmation \<noteq> ''y'' \<and> confirmation \<noteq> ''yes''))"

definition notFoundMessage :: "deps \<Rightarrow> bool \<Rightarrow> string list \<Rightarrow> string" where
  "notFoundMessage dp safe ids =
     ''Could not find '' @ (if safe then ''unaliased'' else ''any'') @ '' deployments matching ''
       @ join '', '' (map (\<lambda>id'. dep_chalk dp ''bold'' (quoted id')) ids)
       @ ''. Run '' @ dep_cmd dp ''now ls'' @ '' to list.''"

definition confirmAndRemove ::
    "deps \<Rightarrow> world \<Rightarrow> argv \<Rightarrow> string list \<Rightarrow> string \<Rightarrow> deployment list \<Rightarrow> event list \<times> result" where
  \<comment> \<open>\<open>main\<close> from \<open>if (matches.length === 0)\<close> on, \<open>matches\<close> being the filtered list\<close>
  "confirmAndRemove dp w a ids contextName matches =
     (if length matches = 0 then ([Log (notFoundMessage dp (argv_safe a) ids)], Returned 0)
      else
        (let found = [LogFound (length matches) contextName]
         in if \<not> argv_yes a then
              (case readConfirmation dp w matches of
                 (es, Pending) \<Rightarrow> (found @ es, Hangs)
               | (es, Rejected err) \<Rightarrow> (found @ es, Threw err)
               | (es, Fulfilled answer) \<Rightarrow>
                   if \<not> affirmative answer then (found @ es @ [Log ''Aborted'', NowClose], Returned 1)
                   else (let (rs, r) = removeBatch dp w (argv_hard a) matches in (found @ es @ rs, r)))
            else (let (rs, r) = removeBatch dp w (argv_hard a) matches in (found @ rs, r))))"

definition probeAndFilter ::
    "deps \<Rightarrow> world \<Rightarrow> argv \<Rightarrow> string list \<Rightarrow> string \<Rightarrow> deployment list \<Rightarrow> event list \<times> result" where
  \<comment> \<open>\<open>main\<close> from the alias probes on, \<open>matches\<close> being the resolver's result\<close>
  "probeAndFilter dp w a ids contextName matches =
     (let probes = map (\<lambda>depl. GetAliases (uid depl)) matches
      in case Promise_all (aliases_settle w) (map (\<lambda>depl. getAliases w (uid depl)) matches) of
           Pending \<Rightarrow> (probes, Hangs)
         | Rejected err \<Rightarrow> (probes @ [CancelWait], Threw err)
         | Fulfilled als \<Rightarrow>
             (case safetyFilter (argv_safe a) als 0 matches of
                Inl err \<Rightarrow> (probes @ [CancelWait], Threw err)
              | Inr filtered \<Rightarrow>
                  (let (es, r) = confirmAndRemove dp w a ids contextName filtered
                   in (probes @ [CancelWait] @ es, r))))"

definition main :: "deps \<Rightarrow> world \<Rightarrow> argv \<Rightarrow> event list \<times> result" where
  "main dp w a =
     (let ids = drop 1 (argv_positional a)
      in if length ids < 1 then
           ([OutError (Str (dep_cmd dp ''now rm'' @ '' expects at least one argument'')), ShowHelp],
            Returned 1)
         else if argv_help a \<or> ids ! 0 = ''help'' then ([ShowHelp], Returned 2)
         else
           (case getScope w of
              Pending \<Rightarrow> ([GetScope], Hangs)
            | Rejected err \<Rightarrow>
                if map_of err ''code'' = Some (Str ''not_authorized'')
                then ([GetScope, OutError (get_prop err ''message'')], Returned 1)
                else ([GetScope], Threw err)
            | Fulfilled contextName \<Rightarrow>
                (let pre = [GetScope,
                            Wait (''Fetching deployment(s) '' @ join '' '' (map quoted ids) @ '' in ''
                                  @ dep_chalk dp ''bold'' contextName),
                            NowList]
                 in case now_list w of
                      Pending \<Rightarrow> (pre, Hangs)
                    | Rejected err \<Rightarrow> (pre @ [CancelWait], Threw err)
                    | Fulfilled deployments \<Rightarrow>
                        (let matches = resolve (dep_normalizeURL dp) ids deployments;
                             (es, r) = probeAndFilter dp w a ids contextName matches
                         in (pre @ es, r)))))"

definition plain :: deps where
  \<comment> \<open>helpers for the concrete runs: no styling, \<open>normalizeURL\<close> as modelled from the spec\<close>
  "plain = \<lparr>dep_cmd = (\<lambda>s. s), dep_chalk = (\<lambda>style s. s), dep_normalizeURL = normalizeURL\<rparr>"

definition app_deployment :: deployment where
  "app_deployment =
     \<lparr>uid = ''a1'', name = ''app'', url = ''app.now.sh'', created = 0, aliases = None\<rparr>"

definition web_deployment :: deployment where
  "web_deployment =
     \<lparr>uid = ''b2'', name = ''web'', url = ''web.now.sh'', created = 0, aliases = None\<rparr>"

definition ok_world :: world where
  \<comment> \<open>two deployments, \<open>a1\<close> with one alias, every request succeeds, the operator types
      \<open>yes\<close>\<close>
  "ok_world =
     \<lparr>getScope = Fulfilled ''me'',
      now_list = Fulfilled [app_deployment, web_deployment],
      getAliases = (\<lambda>u. Inr (if u = ''a1'' then [\<lparr>alias' = ''app.com''\<rparr>] else [])),
      aliases_settle = [1, 0],
      stdin_data = Some (''yes'' @ [CHR 0x0A]),
      now_remove = (\<lambda>u h. Inr ()),
      remove_settle = [1, 0]\<rparr>"

definition rm_args :: "string list \<Rightarrow> argv" where
  "rm_args ids =
     \<lparr>argv_help = False, argv_debug = False, argv_hard = False, argv_yes = False, argv_safe = False,
      argv_positional = ''rm'' # ids\<rparr>"

definition fail_world :: world where
  \<comment> \<open>as \<open>ok_world\<close>, but the removal of \<open>a1\<close> is rejected (after that of \<open>b2\<close> is
      fulfilled)\<close>
  "fail_world = ok_world\<lparr>now_remove := (\<lambda>u h. if u = ''a1'' then Inl MissingUser else Inr ())\<rparr>"



definition probe_fail_world :: world where
  \<comment> \<open>as \<open>ok_world\<close>, but the alias probe for \<open>a1\<close> is rejected\<close>
  "probe_fail_world =
     ok_world\<lparr>getAliases := (\<lambda>u. if u = ''a1'' then Inl MissingUser else Inr [])\<rparr>"

subsection \<open>Facts about the resolver\<close>

lemma normalizeURL_foo: "normalizeURL ''https://foo.com/'' = ''foo.com''"
  by (simp add: normalizeURL_def)

lemma normalizeURL_bare: "normalizeURL ''foo.com'' = ''foo.com''"
  by (simp add: normalizeURL_def)

text \<open>
  C1, as stated, fails: the identifier \<open>foo.com\<close> does not select a deployment whose
  url is \<open>https://foo.com/\<close>, although both normalize to \<open>foo.com\<close>; the code
  normalizes the identifier only.
\<close>

theorem C1_counterexample:
  "resolve normalizeURL [''foo.com''] [foo_deployment] = []
   \<and> resolve_spec normalizeURL [''foo.com''] [foo_deployment] = [foo_deployment]"
  by (simp add: resolve_def resolve_spec_def foo_deployment_def normalizeURL_def)

lemma resolve_filter:
  "resolve nu ids ds = [d \<leftarrow> ds. \<exists>i \<in> set ids. uid d = i \<or> name d = i \<or> url d = nu i]"
  by (simp add: resolve_def list_ex_iff)

text \<open>
  C1 (amended): for every deployment list and identifier list, the resolver returns, in
  the order of the deployment list, exactly the deployments \<open>d\<close> for which some
  identifier \<open>i\<close> has \<open>d.uid = i\<close>, \<open>d.name = i\<close> or \<open>d.url = normalize(i)\<close>: the
  identifier is normalized, the deployment's url is compared as fetched. So the
  identifier \<open>https://foo.com/\<close> selects a deployment whose url is \<open>foo.com\<close>.
\<close>

theorem C1_resolve_matches:
  "resolve nu ids ds = [d \<leftarrow> ds. \<exists>i \<in> set ids. uid d = i \<or> name d = i \<or> url d = nu i]
   \<and> (d \<in> set (resolve nu ids ds) \<longleftrightarrow>
        d \<in> set ds \<and> (\<exists>i \<in> set ids. uid d = i \<or> name d = i \<or> url d = nu i))
   \<and> resolve normalizeURL [''https://foo.com/''] [foo_deployment\<lparr>url := ''foo.com''\<rparr>]
        = [foo_deployment\<lparr>url := ''foo.com''\<rparr>]"
proof -
  have b: "d \<in> set (resolve nu ids ds) \<longleftrightarrow>
        d \<in> set ds \<and> (\<exists>i \<in> set ids. uid d = i \<or> name d = i \<or> url d = nu i)"
    by (simp add: resolve_filter)
  have c: "resolve normalizeURL [''https://foo.com/''] [foo_deployment\<lparr>url := ''foo.com''\<rparr>]
        = [foo_deployment\<lparr>url := ''foo.com''\<rparr>]"
    by (simp add: resolve_def foo_deployment_def normalizeURL_def)
  show ?thesis
    by (rule conjI [OF resolve_filter conjI [OF b c]])
qed

theorem C1_resolve_matches_witness:
  "resolve normalizeURL [''app'', ''zzz''] [foo_deployment] = [foo_deployment]
   \<and> foo_deployment \<in> set (resolve normalizeURL [''app'', ''zzz''] [foo_deployment])"
  using C1_resolve_matches [of normalizeURL "[''app'', ''zzz'']" "[foo_deployment]" foo_deployment]
  by (simp add: foo_deployment_def)

subsection \<open>Strings, promises and the safety filter\<close>

lemma of_char_toLowerCaseChar:
  "(of_char (toLowerCaseChar c) :: nat) =
     (if (65 \<le> (of_char c :: nat) \<and> (of_char c :: nat) \<le> 90)
         \<or> (192 \<le> (of_char c :: nat) \<and> (of_char c :: nat) \<le> 222 \<and> (of_char c :: nat) \<noteq> 215)
      then of_char c + 32 else of_char c)"
  by (simp add: toLowerCaseChar_def Let_def)

lemma char_eq_code: "(c = d) = ((of_char c :: nat) = of_char d)"
  by simp

lemma toLowerCaseChar_y: "toLowerCaseChar c = CHR ''y'' \<longleftrightarrow> c = CHR ''y'' \<or> c = CHR ''Y''"
  unfolding char_eq_code [of _ "CHR ''y''"] char_eq_code [of _ "CHR ''Y''"] of_char_toLowerCaseChar
  by simp arith

lemma toLowerCaseChar_e: "toLowerCaseChar c = CHR ''e'' \<longleftrightarrow> c = CHR ''e'' \<or> c = CHR ''E''"
  unfolding char_eq_code [of _ "CHR ''e''"] char_eq_code [of _ "CHR ''E''"] of_char_toLowerCaseChar
  by simp arith

lemma toLowerCaseChar_s: "toLowerCaseChar c = CHR ''s'' \<longleftrightarrow> c = CHR ''s'' \<or> c = CHR ''S''"
  unfolding char_eq_code [of _ "CHR ''s''"] char_eq_code [of _ "CHR ''S''"] of_char_toLowerCaseChar
  by simp arith

lemma toLowerCase_y: "toLowerCase s = ''y'' \<longleftrightarrow> s = ''y'' \<or> s = ''Y''"
proof -
  have "toLowerCase s = ''y'' \<longleftrightarrow> (\<exists>c. s = [c] \<and> toLowerCaseChar c = CHR ''y'')"
    by (cases s) (auto simp: toLowerCase_def)
  then show ?thesis
    by (simp only: toLowerCaseChar_y) blast
qed

lemma toLowerCase_yes:
  "toLowerCase s = ''yes'' \<longleftrightarrow>
     (\<exists>a b c. s = [a, b, c] \<and> (a = CHR ''y'' \<or> a = CHR ''Y'') \<and> (b = CHR ''e'' \<or> b = CHR ''E'')
        \<and> (c = CHR ''s'' \<or> c = CHR ''S''))"
proof -
  have "toLowerCase s = ''yes'' \<longleftrightarrow>
      (\<exists>a b c. s = [a, b, c] \<and> toLowerCaseChar a = CHR ''y'' \<and> toLowerCaseChar b = CHR ''e''
         \<and> toLowerCaseChar c = CHR ''s'')"
    unfolding toLowerCase_def by (simp only: map_eq_Cons_conv map_is_Nil_conv) blast
  then show ?thesis
    by (simp only: toLowerCaseChar_y toLowerCaseChar_e toLowerCaseChar_s)
qed

lemma Promise_all_Fulfilled:
  assumes "Promise_all order rs = Fulfilled vs"
  shows "length vs = length rs \<and> (\<forall>i < length rs. rs ! i = Inr (vs ! i))"
proof -
  from assms have none: "find (\<lambda>i. i < length rs \<and> isl (rs ! i)) order = None"
    and all: "list_all (\<lambda>i. i \<in> set order) [0 ..< length rs]"
    and vs: "vs = map projr rs"
    by (auto simp: Promise_all_def split: option.splits if_splits)
  have "rs ! i = Inr (vs ! i)" if "i < length rs" for i
  proof -
    from all that have "i \<in> set order" by (simp add: list_all_iff)
    with none that have "\<not> isl (rs ! i)" by (auto simp: find_None_iff)
    then show ?thesis using vs that by (cases "rs ! i") simp_all
  qed
  with vs show ?thesis by simp
qed

lemma Promise_all_Rejected:
  assumes "i \<in> set order" "i < length rs" "isl (rs ! i)"
  shows "\<exists>j. find (\<lambda>i. i < length rs \<and> isl (rs ! i)) order = Some j \<and> j \<in> set order \<and> j < length rs
           \<and> isl (rs ! j) \<and> Promise_all order rs = Rejected (projl (rs ! j))"
proof -
  from assms have "find (\<lambda>i. i < length rs \<and> isl (rs ! i)) order \<noteq> None"
    by (auto simp: find_None_iff)
  then obtain j where j: "find (\<lambda>i. i < length rs \<and> isl (rs ! i)) order = Some j" by auto
  then have "j \<in> set order \<and> j < length rs \<and> isl (rs ! j)"
    by (auto simp: find_Some_iff)
  with j show ?thesis by (simp add: Promise_all_def)
qed

lemma Promise_all_not_Rejected:
  assumes "\<forall>r \<in> set rs. \<not> isl r"
  shows "Promise_all order rs \<noteq> Rejected e"
proof -
  have "find (\<lambda>i. i < length rs \<and> isl (rs ! i)) order = None"
    using assms by (auto simp: find_None_iff)
  then show ?thesis by (simp add: Promise_all_def)
qed

lemma safetyFilter_zip:
  "i + length ms \<le> length als \<Longrightarrow>
   safetyFilter safe als i ms =
     Inr (map (\<lambda>(m, a). m\<lparr>aliases := Some a\<rparr>)
            (filter (\<lambda>(m, a). \<not> (safe \<and> length a > 0)) (zip ms (drop i als))))"
proof (induction ms arbitrary: i)
  case Nil
  then show ?case by simp
next
  case (Cons m ms)
  then have i: "i < length als" and le: "Suc i + length ms \<le> length als" by simp_all
  from i have d: "drop i als = als ! i # drop (Suc i) als"
    by (simp add: Cons_nth_drop_Suc)
  show ?case
    using i Cons.IH [OF le] by (cases safe) (simp_all add: d)
qed

lemma safetyFilter_uids:
  "safetyFilter safe als i ms = Inr r \<Longrightarrow>
   set (map uid r) \<subseteq> set (map uid ms) \<and> (distinct (map uid ms) \<longrightarrow> distinct (map uid r))"
proof (induction ms arbitrary: i r)
  case Nil
  then show ?case by simp
next
  case (Cons m ms)
  show ?case
  proof (cases "safetyFilter safe als (i + 1) ms")
    case (Inl e)
    with Cons.prems show ?thesis by (simp split: if_splits)
  next
    case (Inr r')
    from Cons.IH [OF Inr] have sub: "\<And>x. x \<in> set r' \<Longrightarrow> uid x \<in> uid ` set ms"
      and dist: "distinct (map uid ms) \<Longrightarrow> distinct (map uid r')" by auto
    from Cons.prems Inr consider "r = r'" | x where "r = m\<lparr>aliases := x\<rparr> # r'"
      by (auto split: if_splits)
    then show ?thesis
    proof cases
      case 1
      with sub dist show ?thesis by auto
    next
      case 2
      have "uid m \<notin> uid ` set r'" if "uid m \<notin> uid ` set ms"
        using that sub by auto
      with 2 sub dist show ?thesis by auto
    qed
  qed
qed

lemma removals_append [simp]: "removals (xs @ ys) = removals xs @ removals ys"
  by (simp add: removals_def)

lemma removals_Nil [simp]: "removals [] = []"
  by (simp add: removals_def)

lemma removals_Cons:
  "removals (e # es) = (case e of NowRemove u h \<Rightarrow> [u] | _ \<Rightarrow> []) @ removals es"
  by (simp add: removals_def)

lemma removals_requests [simp]:
  "removals (map (\<lambda>depl. NowRemove (uid depl) h) ms) = map uid ms"
  by (induction ms) (simp_all add: removals_Cons)

lemma removals_probes [simp]: "removals (map (\<lambda>depl. GetAliases (f depl)) ms) = []"
  by (induction ms) (simp_all add: removals_Cons)

lemma removals_lines [simp]: "removals (map (\<lambda>depl. ConsoleLog (f depl)) ms) = []"
  by (induction ms) (simp_all add: removals_Cons)

lemma removals_warns [simp]: "removals (map (\<lambda>al. Warn (f al)) als) = []"
  by (induction als) (simp_all add: removals_Cons)

lemma removals_aliasWarnings [simp]: "removals (fst (aliasWarnings dp ms)) = []"
  by (induction ms) (auto split: option.splits prod.splits)

lemma Prompt_aliasWarnings [simp]: "Prompt \<notin> set (fst (aliasWarnings dp ms))"
  by (induction ms) (auto split: option.splits prod.splits)

lemma removals_removeBatch: "removals (fst (removeBatch dp w h ms)) = map uid ms"
  by (simp add: removeBatch_def Let_def removals_Cons split: settled.splits)

subsection \<open>The safety filter (C5)\<close>

text \<open>
  C5: on a list of matches with their alias lists (\<open>aliases\<close> aligned with \<open>matches\<close> by
  index), the safety filter in safe mode returns exactly the matches whose alias list is
  empty, and without safe mode all of them, in the order of the input; every match it
  returns carries its alias list in the field \<open>aliases\<close>.
\<close>

theorem C5_safetyFilter:
  assumes "length als = length ms"
  shows "safetyFilter True als 0 ms
           = Inr (map (\<lambda>(m, a). m\<lparr>aliases := Some a\<rparr>) (filter (\<lambda>(m, a). a = []) (zip ms als)))
       \<and> safetyFilter False als 0 ms = Inr (map (\<lambda>(m, a). m\<lparr>aliases := Some a\<rparr>) (zip ms als))"
  using assms by (simp add: safetyFilter_zip)

theorem C5_safetyFilter_witness:
  "safetyFilter True [[\<lparr>alias' = ''app.com''\<rparr>], []] 0 [app_deployment, web_deployment]
     = Inr [web_deployment\<lparr>aliases := Some []\<rparr>]
   \<and> safetyFilter False [[\<lparr>alias' = ''app.com''\<rparr>], []] 0 [app_deployment, web_deployment]
     = Inr [app_deployment\<lparr>aliases := Some [\<lparr>alias' = ''app.com''\<rparr>]\<rparr>,
            web_deployment\<lparr>aliases := Some []\<rparr>]"
  using C5_safetyFilter [of "[[\<lparr>alias' = ''app.com''\<rparr>], []]" "[app_deployment, web_deployment]"]
  by simp

subsection \<open>The batch remover (C2)\<close>

text \<open>
  C2: the batch remover issues one removal request per candidate, whatever the requests
  answer. If a request that settles is rejected, the phase fails: \<open>main\<close> throws the
  rejection of the request that is the first, in the order of settling, to be rejected,
  also when other requests were fulfilled before it.
\<close>

theorem C2_removeBatch:
  "removals (fst (removeBatch dp w hard ms)) = map uid ms
   \<and> (\<forall>i. i \<in> set (remove_settle w) \<and> i < length ms \<and> isl (now_remove w (uid (ms ! i)) hard) \<longrightarrow>
        (\<exists>j. find (\<lambda>k. k < length ms \<and> isl (now_remove w (uid (ms ! k)) hard)) (remove_settle w) = Some j
             \<and> snd (removeBatch dp w hard ms) = Threw (projl (now_remove w (uid (ms ! j)) hard))))"
proof -
  let ?rs = "map (\<lambda>depl. now_remove w (uid depl) hard) ms"
  have "\<exists>j. find (\<lambda>k. k < length ms \<and> isl (now_remove w (uid (ms ! k)) hard)) (remove_settle w) = Some j
             \<and> snd (removeBatch dp w hard ms) = Threw (projl (now_remove w (uid (ms ! j)) hard))"
    if i: "i \<in> set (remove_settle w)" "i < length ms" "isl (now_remove w (uid (ms ! i)) hard)" for i
  proof -
    have P: "(\<lambda>k. k < length ?rs \<and> isl (?rs ! k)) = (\<lambda>k. k < length ms \<and> isl (now_remove w (uid (ms ! k)) hard))"
      by (rule ext) auto
    from i have "i < length ?rs" "isl (?rs ! i)" by simp_all
    from Promise_all_Rejected [OF i(1) this]
    obtain j where j: "find (\<lambda>k. k < length ?rs \<and> isl (?rs ! k)) (remove_settle w) = Some j"
      "j < length ?rs" "Promise_all (remove_settle w) ?rs = Rejected (projl (?rs ! j))"
      by blast
    from j(2,3) have "snd (removeBatch dp w hard ms) = Threw (projl (now_remove w (uid (ms ! j)) hard))"
      by (simp add: removeBatch_def Let_def)
    with j(1) show ?thesis unfolding P by blast
  qed
  then show ?thesis
    using removals_removeBatch [of dp w hard ms] by blast
qed

theorem C2_removeBatch_witness:
  "removals (fst (removeBatch plain fail_world False [app_deployment, web_deployment])) = [''a1'', ''b2'']
   \<and> snd (removeBatch plain fail_world False [app_deployment, web_deployment]) = Threw MissingUser"
proof -
  note t = C2_removeBatch [of plain fail_world False "[app_deployment, web_deployment]"]
  show ?thesis
    using t [THEN conjunct1] t [THEN conjunct2, rule_format, of 0]
    by (simp add: fail_world_def ok_world_def app_deployment_def web_deployment_def)
qed

subsection \<open>Alias lists and matches are aligned (C10)\<close>

lemma probeAndFilter_Fulfilled:
  assumes "Promise_all (aliases_settle w) (map (\<lambda>depl. getAliases w (uid depl)) matches) = Fulfilled als"
    and "safetyFilter (argv_safe a) als 0 matches = Inr filtered"
  shows "probeAndFilter dp w a ids c matches =
           (map (\<lambda>depl. GetAliases (uid depl)) matches @ [CancelWait]
              @ fst (confirmAndRemove dp w a ids c filtered),
            snd (confirmAndRemove dp w a ids c filtered))"
  using assms by (simp add: probeAndFilter_def Let_def split: prod.splits)

text \<open>
  C10: the safety filter runs only when the probes' \<open>Promise.all\<close> is fulfilled, and then
  the alias array is as long as the list of matches, entry \<open>i\<close> is what the probe for
  the uid of match \<open>i\<close> answered, the filter's reads \<open>aliases[i]\<close> are in range (it
  returns, it does not throw), every match it keeps carries the alias list fetched for
  its own uid, and the run goes on with the filtered list.
\<close>

theorem C10_aliases_aligned:
  assumes "Promise_all (aliases_settle w) (map (\<lambda>depl. getAliases w (uid depl)) matches) = Fulfilled als"
  shows "length als = length matches
     \<and> (\<forall>i < length matches. getAliases w (uid (matches ! i)) = Inr (als ! i))
     \<and> (\<exists>filtered. safetyFilter (argv_safe a) als 0 matches = Inr filtered
          \<and> (\<forall>d \<in> set filtered. \<exists>al. aliases d = Some al \<and> getAliases w (uid d) = Inr al)
          \<and> probeAndFilter dp w a ids c matches =
               (map (\<lambda>depl. GetAliases (uid depl)) matches @ [CancelWait]
                  @ fst (confirmAndRemove dp w a ids c filtered),
                snd (confirmAndRemove dp w a ids c filtered)))"
proof -
  from Promise_all_Fulfilled [OF assms]
  have len: "length als = length matches"
    and al: "\<And>i. i < length matches \<Longrightarrow> getAliases w (uid (matches ! i)) = Inr (als ! i)"
    by simp_all
  define filtered where
    "filtered = map (\<lambda>(m, al). m\<lparr>aliases := Some al\<rparr>)
                  (filter (\<lambda>(m, al). \<not> (argv_safe a \<and> length al > 0)) (zip matches als))"
  have sf: "safetyFilter (argv_safe a) als 0 matches = Inr filtered"
    using len by (simp add: safetyFilter_zip filtered_def)
  have "\<exists>al. aliases d = Some al \<and> getAliases w (uid d) = Inr al" if "d \<in> set filtered" for d
  proof -
    from that obtain m al' where d: "d = m\<lparr>aliases := Some al'\<rparr>" and z: "(m, al') \<in> set (zip matches als)"
      by (auto simp: filtered_def)
    from z obtain i where "i < length matches" "m = matches ! i" "al' = als ! i"
      by (auto simp: in_set_zip)
    with al [of i] d show ?thesis by simp
  qed
  with len al sf probeAndFilter_Fulfilled [OF assms sf] show ?thesis by blast
qed

theorem C10_aliases_aligned_witness:
  "safetyFilter True [[\<lparr>alias' = ''app.com''\<rparr>], []] 0 [app_deployment, web_deployment]
     = Inr [web_deployment\<lparr>aliases := Some []\<rparr>]
   \<and> Promise_all (aliases_settle ok_world)
        (map (\<lambda>depl. getAliases ok_world (uid depl)) [app_deployment, web_deployment])
      = Fulfilled [[\<lparr>alias' = ''app.com''\<rparr>], []]"
proof -
  have p: "Promise_all (aliases_settle ok_world)
        (map (\<lambda>depl. getAliases ok_world (uid depl)) [app_deployment, web_deployment])
      = Fulfilled [[\<lparr>alias' = ''app.com''\<rparr>], []]"
    by (simp add: Promise_all_def ok_world_def app_deployment_def web_deployment_def)
  from C10_aliases_aligned [OF p, of "(rm_args [''a1''])\<lparr>argv_safe := True\<rparr>" plain "[''a1'']" "''me''"]
  show ?thesis using p
    by (simp add: rm_args_def app_deployment_def web_deployment_def)
qed

subsection \<open>The shape of a run\<close>


lemma readConfirmation_cases:
  "(\<exists>es err. readConfirmation dp w ms = (es, Rejected err) \<and> Prompt \<notin> set es \<and> removals es = [])
   \<or> (\<exists>es. readConfirmation dp w ms = (es @ [Prompt],
            case stdin_data w of None \<Rightarrow> Pending | Some d \<Rightarrow> Fulfilled (trim d))
          \<and> removals es = [])"
proof (cases "aliasWarnings dp ms")
  case (Pair ws thrown)
  have ws: "removals ws = []" "Prompt \<notin> set ws"
    using removals_aliasWarnings [of dp ms] Prompt_aliasWarnings [of dp ms] Pair by simp_all
  show ?thesis
  proof (cases thrown)
    case None
    with Pair ws show ?thesis
      by (cases "stdin_data w") (simp_all add: readConfirmation_def removals_Cons)
  next
    case (Some err)
    with Pair ws show ?thesis
      by (simp add: readConfirmation_def removals_Cons)
  qed
qed

lemma confirmAndRemove_removals:
  "removals (fst (confirmAndRemove dp w a ids c ms)) = []
   \<or> removals (fst (confirmAndRemove dp w a ids c ms)) = map uid ms"
proof -
  have rb: "removals (fst (removeBatch dp w (argv_hard a) ms)) = map uid ms"
    by (rule removals_removeBatch)
  from readConfirmation_cases [of dp w ms] show ?thesis
  proof (elim disjE exE conjE)
    fix es err assume "readConfirmation dp w ms = (es, Rejected err)" "removals es = []"
    with rb show ?thesis
      by (simp add: confirmAndRemove_def Let_def removals_Cons case_prod_beta)
  next
    fix es assume "readConfirmation dp w ms = (es @ [Prompt],
            case stdin_data w of None \<Rightarrow> Pending | Some d \<Rightarrow> Fulfilled (trim d))" "removals es = []"
    with rb show ?thesis
      by (cases "stdin_data w")
         (simp_all add: confirmAndRemove_def Let_def removals_Cons case_prod_beta)
  qed
qed


lemma resolve_uids:
  "set (map uid (resolve nu ids D)) \<subseteq> set (map uid D)
   \<and> (distinct (map uid D) \<longrightarrow> distinct (map uid (resolve nu ids D)))"
  by (auto simp: resolve_def distinct_map_filter)

lemma Prompt_probes [simp]: "Prompt \<notin> (\<lambda>depl. GetAliases (f depl)) ` set ms"
  by auto

lemma probeAndFilter_shape:
  "(Prompt \<notin> set (fst (probeAndFilter dp w a ids c ms)) \<and> removals (fst (probeAndFilter dp w a ids c ms)) = [])
   \<or> (\<exists>pre filtered.
         fst (probeAndFilter dp w a ids c ms) = pre @ fst (confirmAndRemove dp w a ids c filtered)
       \<and> snd (probeAndFilter dp w a ids c ms) = snd (confirmAndRemove dp w a ids c filtered)
       \<and> Prompt \<notin> set pre \<and> removals pre = []
       \<and> set (map uid filtered) \<subseteq> set (map uid ms)
       \<and> (distinct (map uid ms) \<longrightarrow> distinct (map uid filtered)))"
proof (cases "Promise_all (aliases_settle w) (map (\<lambda>depl. getAliases w (uid depl)) ms)")
  case (Fulfilled als)
  show ?thesis
  proof (cases "safetyFilter (argv_safe a) als 0 ms")
    case (Inl err)
    with Fulfilled show ?thesis
      by (simp add: probeAndFilter_def Let_def removals_Cons)
  next
    case (Inr filtered)
    let ?pre = "map (\<lambda>depl. GetAliases (uid depl)) ms @ [CancelWait]"
    from probeAndFilter_Fulfilled [OF Fulfilled Inr, of dp ids c]
    have "fst (probeAndFilter dp w a ids c ms) = ?pre @ fst (confirmAndRemove dp w a ids c filtered)"
      "snd (probeAndFilter dp w a ids c ms) = snd (confirmAndRemove dp w a ids c filtered)"
      by simp_all
    moreover have "Prompt \<notin> set ?pre" "removals ?pre = []"
      by (simp_all add: removals_Cons)
    moreover note safetyFilter_uids [OF Inr]
    ultimately show ?thesis by blast
  qed
next
  case (Rejected err)
  then show ?thesis by (simp add: probeAndFilter_def Let_def removals_Cons)
next
  case Pending
  then show ?thesis by (simp add: probeAndFilter_def Let_def removals_Cons)
qed

lemma main_probe:
  assumes "drop 1 (argv_positional a) = ids" "ids \<noteq> []" "\<not> argv_help a" "ids ! 0 \<noteq> ''help''"
    "getScope w = Fulfilled c" "now_list w = Fulfilled D"
  shows "main dp w a =
     ([GetScope,
       Wait (''Fetching deployment(s) '' @ join '' '' (map quoted ids) @ '' in '' @ dep_chalk dp ''bold'' c),
       NowList] @ fst (probeAndFilter dp w a ids c (resolve (dep_normalizeURL dp) ids D)),
      snd (probeAndFilter dp w a ids c (resolve (dep_normalizeURL dp) ids D)))"
  using assms by (simp add: main_def Let_def case_prod_beta)

lemma main_shape:
  "(Prompt \<notin> set (fst (main dp w a)) \<and> removals (fst (main dp w a)) = [])
   \<or> (\<exists>pre ids c filtered D.
         now_list w = Fulfilled D
       \<and> fst (main dp w a) = pre @ fst (confirmAndRemove dp w a ids c filtered)
       \<and> snd (main dp w a) = snd (confirmAndRemove dp w a ids c filtered)
       \<and> Prompt \<notin> set pre \<and> removals pre = []
       \<and> set (map uid filtered) \<subseteq> set (map uid D)
       \<and> (distinct (map uid D) \<longrightarrow> distinct (map uid filtered)))"
proof -
  define ids where "ids = drop 1 (argv_positional a)"
  consider (short) "ids = [] \<or> argv_help a \<or> ids ! 0 = ''help''
                      \<or> (\<forall>c. getScope w \<noteq> Fulfilled c) \<or> (\<forall>D. now_list w \<noteq> Fulfilled D)"
    | (long) c D where "ids \<noteq> []" "\<not> argv_help a" "ids ! 0 \<noteq> ''help''"
        "getScope w = Fulfilled c" "now_list w = Fulfilled D"
    by blast
  then show ?thesis
  proof cases
    case short
    then have "Prompt \<notin> set (fst (main dp w a)) \<and> removals (fst (main dp w a)) = []"
      by (cases "getScope w"; cases "now_list w")
         (auto simp: main_def Let_def ids_def removals_Cons case_prod_beta)
    then show ?thesis ..
  next
    case long
    let ?ms = "resolve (dep_normalizeURL dp) ids D"
    define pre0 where "pre0 = [GetScope,
       Wait (''Fetching deployment(s) '' @ join '' '' (map quoted ids) @ '' in '' @ dep_chalk dp ''bold'' c),
       NowList]"
    have m: "fst (main dp w a) = pre0 @ fst (probeAndFilter dp w a ids c ?ms)"
      "snd (main dp w a) = snd (probeAndFilter dp w a ids c ?ms)"
      using main_probe [OF ids_def [symmetric] long, of dp] by (simp_all add: pre0_def)
    have p0: "Prompt \<notin> set pre0" "removals pre0 = []" by (simp_all add: pre0_def removals_Cons)
    from probeAndFilter_shape [of dp w a ids c ?ms] show ?thesis
    proof (elim disjE exE conjE)
      assume "Prompt \<notin> set (fst (probeAndFilter dp w a ids c ?ms))"
        "removals (fst (probeAndFilter dp w a ids c ?ms)) = []"
      with m p0 have "Prompt \<notin> set (fst (main dp w a)) \<and> removals (fst (main dp w a)) = []"
        by simp
      then show ?thesis ..
    next
      fix pre filtered
      assume a: "fst (probeAndFilter dp w a ids c ?ms) = pre @ fst (confirmAndRemove dp w a ids c filtered)"
        "snd (probeAndFilter dp w a ids c ?ms) = snd (confirmAndRemove dp w a ids c filtered)"
        "Prompt \<notin> set pre" "removals pre = []"
        "set (map uid filtered) \<subseteq> set (map uid ?ms)"
        "distinct (map uid ?ms) \<longrightarrow> distinct (map uid filtered)"
      from a(5,6) resolve_uids [of "dep_normalizeURL dp" ids D]
      have u: "set (map uid filtered) \<subseteq> set (map uid D)"
        "distinct (map uid D) \<longrightarrow> distinct (map uid filtered)" by blast+
      have "fst (main dp w a) = (pre0 @ pre) @ fst (confirmAndRemove dp w a ids c filtered)"
        "snd (main dp w a) = snd (confirmAndRemove dp w a ids c filtered)"
        "Prompt \<notin> set (pre0 @ pre)" "removals (pre0 @ pre) = []"
        using m a(1-4) p0 by simp_all
      with u long(5) show ?thesis by blast
    qed
  qed
qed

lemma affirmative_iff:
  "affirmative s \<longleftrightarrow>
     s \<in> {''y'', ''Y'', ''yes'', ''yeS'', ''yEs'', ''yES'', ''Yes'', ''YeS'', ''YEs'', ''YES''}"
  unfolding affirmative_def Let_def de_Morgan_conj not_not toLowerCase_y toLowerCase_yes
  by auto

lemmas run_defs = main_def plain_def ok_world_def rm_args_def resolve_def
      normalizeURL_def app_deployment_def web_deployment_def probeAndFilter_def Promise_all_def
      confirmAndRemove_def readConfirmation_def affirmative_def trim_def isWhiteSpace_def
      toLowerCase_def toLowerCaseChar_def removeBatch_def Let_def quoted_def removals_Cons
      notFoundMessage_def

subsection \<open>The confirmation gate (C3)\<close>




subsection \<open>A failing alias probe (C4)\<close>

text \<open>
  C4: in a run that resolves its identifiers to \<open>matches\<close>, if the probe of some match
  settles rejected, then \<open>main\<close> throws the rejection that comes first in the order of
  settling; its effects end with the probes and the end of the spinner, so that no alias
  data is used, the operator is not prompted and no removal request is issued.
\<close>

theorem C4_probe_failure:
  assumes "drop 1 (argv_positional a) = ids" "ids \<noteq> []" "\<not> argv_help a" "ids ! 0 \<noteq> ''help''"
    "getScope w = Fulfilled c" "now_list w = Fulfilled D"
    "matches = resolve (dep_normalizeURL dp) ids D"
    "i \<in> set (aliases_settle w)" "i < length matches" "isl (getAliases w (uid (matches ! i)))"
  shows "\<exists>j. find (\<lambda>k. k < length matches \<and> isl (getAliases w (uid (matches ! k)))) (aliases_settle w) = Some j
           \<and> snd (main dp w a) = Threw (projl (getAliases w (uid (matches ! j))))
           \<and> fst (main dp w a) =
               [GetScope,
                Wait (''Fetching deployment(s) '' @ join '' '' (map quoted ids) @ '' in ''
                      @ dep_chalk dp ''bold'' c),
                NowList] @ map (\<lambda>depl. GetAliases (uid depl)) matches @ [CancelWait]
           \<and> removals (fst (main dp w a)) = []
           \<and> Prompt \<notin> set (fst (main dp w a))"
proof -
  let ?rs = "map (\<lambda>depl. getAliases w (uid depl)) matches"
  have P: "(\<lambda>k. k < length ?rs \<and> isl (?rs ! k))
         = (\<lambda>k. k < length matches \<and> isl (getAliases w (uid (matches ! k))))"
    by (rule ext) auto
  from assms(9,10) have "i < length ?rs" "isl (?rs ! i)" by simp_all
  from Promise_all_Rejected [OF assms(8) this]
  obtain j where j: "find (\<lambda>k. k < length ?rs \<and> isl (?rs ! k)) (aliases_settle w) = Some j"
    "j < length ?rs" "Promise_all (aliases_settle w) ?rs = Rejected (projl (?rs ! j))"
    by blast
  from j(2,3) have pf: "probeAndFilter dp w a ids c matches =
      (map (\<lambda>depl. GetAliases (uid depl)) matches @ [CancelWait],
       Threw (projl (getAliases w (uid (matches ! j)))))"
    by (simp add: probeAndFilter_def Let_def)
  from main_probe [OF assms(1-6), of dp] pf assms(7)
  have m: "main dp w a =
     ([GetScope,
       Wait (''Fetching deployment(s) '' @ join '' '' (map quoted ids) @ '' in '' @ dep_chalk dp ''bold'' c),
       NowList] @ map (\<lambda>depl. GetAliases (uid depl)) matches @ [CancelWait],
      Threw (projl (getAliases w (uid (matches ! j)))))"
    by simp
  have "removals (fst (main dp w a)) = []" "Prompt \<notin> set (fst (main dp w a))"
    unfolding m by (simp_all add: removals_Cons)
  with j(1) m show ?thesis unfolding P by simp
qed

theorem C4_probe_failure_witness:
  "snd (main plain probe_fail_world (rm_args [''a1'', ''b2''])) = Threw MissingUser
   \<and> removals (fst (main plain probe_fail_world (rm_args [''a1'', ''b2'']))) = []
   \<and> Prompt \<notin> set (fst (main plain probe_fail_world (rm_args [''a1'', ''b2''])))"
proof -
  have r: "resolve (dep_normalizeURL plain) [''a1'', ''b2''] [app_deployment, web_deployment]
             = [app_deployment, web_deployment]"
    by (simp add: run_defs)
  have "\<exists>j. find (\<lambda>k. k < length [app_deployment, web_deployment]
                     \<and> isl (getAliases probe_fail_world (uid ([app_deployment, web_deployment] ! k))))
               (aliases_settle probe_fail_world) = Some j
           \<and> snd (main plain probe_fail_world (rm_args [''a1'', ''b2'']))
               = Threw (projl (getAliases probe_fail_world (uid ([app_deployment, web_deployment] ! j))))
           \<and> fst (main plain probe_fail_world (rm_args [''a1'', ''b2''])) =
               [GetScope,
                Wait (''Fetching deployment(s) '' @ join '' '' (map quoted [''a1'', ''b2'']) @ '' in ''
                      @ dep_chalk plain ''bold'' ''me''),
                NowList] @ map (\<lambda>depl. GetAliases (uid depl)) [app_deployment, web_deployment] @ [CancelWait]
           \<and> removals (fst (main plain probe_fail_world (rm_args [''a1'', ''b2'']))) = []
           \<and> Prompt \<notin> set (fst (main plain probe_fail_world (rm_args [''a1'', ''b2''])))"
    by (rule C4_probe_failure [where i = 0 and D = "[app_deployment, web_deployment]"])
       (simp_all add: r, simp_all add: probe_fail_world_def ok_world_def rm_args_def app_deployment_def)
  then show ?thesis
    by (auto simp: probe_fail_world_def ok_world_def app_deployment_def web_deployment_def)
qed

subsection \<open>Help and the argument count (C8)\<close>

text \<open>
  C8 does not hold of the code: with the help flag set and no identifier, \<open>main\<close> reports
  a missing argument and returns 1, because the argument count is tested before the help
  request. The help request by the positional argument \<open>help\<close>, and the help flag next
  to an identifier, return 2.
\<close>

theorem C8_help_without_identifiers:
  "main dp w ((rm_args [])\<lparr>argv_help := True\<rparr>)
     = ([OutError (Str (dep_cmd dp ''now rm'' @ '' expects at least one argument'')), ShowHelp], Returned 1)
   \<and> main dp w (rm_args [''help'']) = ([ShowHelp], Returned 2)
   \<and> main dp w ((rm_args [''a1''])\<lparr>argv_help := True\<rparr>) = ([ShowHelp], Returned 2)"
  by (simp add: main_def rm_args_def)

subsection \<open>Nothing to remove (C7)\<close>

text \<open>
  C7: when the safety filter leaves no candidate, \<open>main\<close> returns 0 and issues no removal
  request; its last effect is the message that no deployment was found, which says
  \<open>unaliased\<close> deployments in safe mode and \<open>any\<close> deployments otherwise, so that the two
  texts differ.
\<close>

theorem C7_nothing_to_remove:
  assumes "drop 1 (argv_positional a) = ids" "ids \<noteq> []" "\<not> argv_help a" "ids ! 0 \<noteq> ''help''"
    "getScope w = Fulfilled c" "now_list w = Fulfilled D"
    "matches = resolve (dep_normalizeURL dp) ids D"
    "Promise_all (aliases_settle w) (map (\<lambda>depl. getAliases w (uid depl)) matches) = Fulfilled als"
    "safetyFilter (argv_safe a) als 0 matches = Inr []"
  shows "snd (main dp w a) = Returned 0
       \<and> removals (fst (main dp w a)) = []
       \<and> last (fst (main dp w a)) = Log (notFoundMessage dp (argv_safe a) ids)
       \<and> notFoundMessage dp True ids \<noteq> notFoundMessage dp False ids
       \<and> (\<exists>rest. notFoundMessage dp True ids = ''Could not find unaliased deployments matching '' @ rest)
       \<and> (\<exists>rest. notFoundMessage dp False ids = ''Could not find any deployments matching '' @ rest)"
proof -
  have c: "confirmAndRemove dp w a ids c [] = ([Log (notFoundMessage dp (argv_safe a) ids)], Returned 0)"
    by (simp add: confirmAndRemove_def)
  from probeAndFilter_Fulfilled [OF assms(8,9), of dp ids c] c
  have pf: "probeAndFilter dp w a ids c matches =
      (map (\<lambda>depl. GetAliases (uid depl)) matches @ [CancelWait, Log (notFoundMessage dp (argv_safe a) ids)],
       Returned 0)"
    by simp
  from main_probe [OF assms(1-6), of dp] pf assms(7)
  have m: "main dp w a =
     ([GetScope,
       Wait (''Fetching deployment(s) '' @ join '' '' (map quoted ids) @ '' in '' @ dep_chalk dp ''bold'' c),
       NowList] @ map (\<lambda>depl. GetAliases (uid depl)) matches
        @ [CancelWait, Log (notFoundMessage dp (argv_safe a) ids)],
      Returned 0)"
    by simp
  have 1: "snd (main dp w a) = Returned 0" "removals (fst (main dp w a)) = []"
    "last (fst (main dp w a)) = Log (notFoundMessage dp (argv_safe a) ids)"
    unfolding m by (simp_all add: removals_Cons)
  have 2: "notFoundMessage dp True ids \<noteq> notFoundMessage dp False ids"
    by (simp add: notFoundMessage_def)
  have 3: "\<exists>rest. notFoundMessage dp True ids = ''Could not find unaliased deployments matching '' @ rest"
    "\<exists>rest. notFoundMessage dp False ids = ''Could not find any deployments matching '' @ rest"
    by (simp_all add: notFoundMessage_def)
  from 1 2 3 show ?thesis by blast
qed

theorem C7_nothing_to_remove_witness:
  "main plain ok_world ((rm_args [''a1''])\<lparr>argv_safe := True\<rparr>) =
     ([GetScope, Wait (''Fetching deployment(s) '' @ quoted ''a1'' @ '' in me''), NowList, GetAliases ''a1'',
       CancelWait,
       Log (''Could not find unaliased deployments matching '' @ quoted ''a1'' @ ''. Run now ls to list.'')],
      Returned 0)
   \<and> snd (main plain ok_world (rm_args [''missing-id''])) = Returned 0
   \<and> last (fst (main plain ok_world (rm_args [''missing-id''])))
       = Log (''Could not find any deployments matching '' @ quoted ''missing-id'' @ ''. Run now ls to list.'')"
proof -
  have a: "Promise_all (aliases_settle ok_world) (map (\<lambda>depl. getAliases ok_world (uid depl)) []) = Fulfilled []"
    by (simp add: Promise_all_def ok_world_def)
  have b: "safetyFilter (argv_safe (rm_args [''missing-id''])) [] 0 [] = Inr []"
    by simp
  from C7_nothing_to_remove [where a = "rm_args [''missing-id'']" and dp = plain and w = ok_world
      and ids = "[''missing-id'']" and c = "''me''" and D = "[app_deployment, web_deployment]"
      and matches = "[]" and als = "[]", OF _ _ _ _ _ _ _ a b]
  have "snd (main plain ok_world (rm_args [''missing-id''])) = Returned 0
      \<and> last (fst (main plain ok_world (rm_args [''missing-id''])))
          = Log (notFoundMessage plain (argv_safe (rm_args [''missing-id''])) [''missing-id''])"
    by (simp add: run_defs)
  moreover have "main plain ok_world ((rm_args [''a1''])\<lparr>argv_safe := True\<rparr>) =
     ([GetScope, Wait (''Fetching deployment(s) '' @ quoted ''a1'' @ '' in me''), NowList, GetAliases ''a1'',
       CancelWait,
       Log (''Could not find unaliased deployments matching '' @ quoted ''a1'' @ ''. Run now ls to list.'')],
      Returned 0)"
    by (simp add: run_defs)
  ultimately show ?thesis
    by (simp add: run_defs)
qed

subsection \<open>No deployment twice (C6)\<close>

lemma main_short:
  assumes "drop 1 (argv_positional a) = [] \<or> argv_help a \<or> drop 1 (argv_positional a) ! 0 = ''help''
           \<or> (\<forall>c. getScope w \<noteq> Fulfilled c) \<or> (\<forall>D. now_list w \<noteq> Fulfilled D)"
  shows "removals (fst (main dp w a)) = []"
  using assms
  by (cases "getScope w"; cases "now_list w")
     (auto simp: main_def Let_def removals_Cons case_prod_beta)

lemma uid_annotated:
  "length als = length ms \<Longrightarrow> map uid (map (\<lambda>(m, al). m\<lparr>aliases := Some al\<rparr>) (zip ms als)) = map uid ms"
proof -
  assume l: "length als = length ms"
  have "map uid (map (\<lambda>(m, al). m\<lparr>aliases := Some al\<rparr>) (zip ms als)) = map (uid \<circ> fst) (zip ms als)"
    by (simp add: case_prod_beta comp_def)
  also have "\<dots> = map uid (map fst (zip ms als))" by simp
  also have "\<dots> = map uid ms" using l by simp
  finally show ?thesis .
qed

lemma main_removals_unsafe:
  assumes L: "now_list w = Fulfilled D" and ne: "removals (fst (main dp w a)) \<noteq> []"
    and ns: "\<not> argv_safe a"
  shows "removals (fst (main dp w a)) = map uid (resolve (dep_normalizeURL dp) (drop 1 (argv_positional a)) D)"
proof -
  define ids where "ids = drop 1 (argv_positional a)"
  let ?ms = "resolve (dep_normalizeURL dp) ids D"
  from ne main_short [of a w dp] obtain c where
    l: "ids \<noteq> []" "\<not> argv_help a" "ids ! 0 \<noteq> ''help''" "getScope w = Fulfilled c"
    unfolding ids_def by blast
  from main_probe [OF ids_def [symmetric] l L, of dp]
  have r: "removals (fst (main dp w a)) = removals (fst (probeAndFilter dp w a ids c ?ms))"
    by (simp add: removals_Cons)
  show ?thesis
  proof (cases "Promise_all (aliases_settle w) (map (\<lambda>depl. getAliases w (uid depl)) ?ms)")
    case (Fulfilled als)
    from Promise_all_Fulfilled [OF Fulfilled] have len: "length als = length ?ms" by simp
    define filtered where "filtered = map (\<lambda>(m, al). m\<lparr>aliases := Some al\<rparr>) (zip ?ms als)"
    have sf: "safetyFilter (argv_safe a) als 0 ?ms = Inr filtered"
      using len ns by (simp add: safetyFilter_zip filtered_def)
    from probeAndFilter_Fulfilled [OF Fulfilled sf, of dp ids c]
    have "removals (fst (probeAndFilter dp w a ids c ?ms)) = removals (fst (confirmAndRemove dp w a ids c filtered))"
      by (simp add: removals_Cons)
    with r ne confirmAndRemove_removals [of dp w a ids c filtered]
    have "removals (fst (main dp w a)) = map uid filtered" by simp
    moreover have "map uid filtered = map uid ?ms"
      unfolding filtered_def by (rule uid_annotated [OF len])
    ultimately show ?thesis by (simp add: ids_def)
  next
    case (Rejected err)
    with r ne show ?thesis by (simp add: probeAndFilter_def Let_def removals_Cons)
  next
    case Pending
    with r ne show ?thesis by (simp add: probeAndFilter_def Let_def removals_Cons)
  qed
qed

lemma main_removals_distinct:
  assumes "now_list w = Fulfilled D" "distinct (map uid D)"
  shows "distinct (removals (fst (main dp w a))) \<and> set (removals (fst (main dp w a))) \<subseteq> uid ` set D"
proof -
  from main_shape [of dp w a] show ?thesis
  proof (elim disjE exE conjE)
    assume "removals (fst (main dp w a)) = []"
    then show ?thesis by simp
  next
    fix pre ids c filtered D'
    assume a: "now_list w = Fulfilled D'"
      "fst (main dp w a) = pre @ fst (confirmAndRemove dp w a ids c filtered)"
      "removals pre = []"
      "set (map uid filtered) \<subseteq> set (map uid D')"
      "distinct (map uid D') \<longrightarrow> distinct (map uid filtered)"
    from a(1) assms(1) have D: "D' = D" by simp
    from a(2,3) have "removals (fst (main dp w a)) = removals (fst (confirmAndRemove dp w a ids c filtered))"
      by simp
    with confirmAndRemove_removals [of dp w a ids c filtered]
    have "removals (fst (main dp w a)) = [] \<or> removals (fst (main dp w a)) = map uid filtered"
      by simp
    with a(4,5) assms(2) D show ?thesis by auto
  qed
qed

lemma once_in_distinct:
  "distinct (map f xs) \<Longrightarrow> x \<in> set xs \<Longrightarrow> length (filter (\<lambda>y. f y = f x) xs) = 1"
proof (induction xs)
  case Nil
  then show ?case by simp
next
  case (Cons y ys)
  show ?case
  proof (cases "f y = f x")
    case True
    from Cons.prems(1) have "f y \<notin> f ` set ys" by simp
    with True have "\<forall>z \<in> set ys. f z \<noteq> f x" by (auto simp: image_iff)
    then have "filter (\<lambda>y. f y = f x) ys = []" by (simp add: filter_empty_conv)
    with True show ?thesis by simp
  next
    case False
    with Cons show ?thesis by auto
  qed
qed

lemma Promise_all_all_fulfilled:
  assumes "\<forall>r \<in> set rs. \<not> isl r" "\<forall>i < length rs. i \<in> set order"
  shows "Promise_all order rs = Fulfilled (map projr rs)"
proof -
  have "find (\<lambda>i. i < length rs \<and> isl (rs ! i)) order = None"
    using assms(1) by (auto simp: find_None_iff)
  moreover have "list_all (\<lambda>i. i \<in> set order) [0 ..< length rs]"
    using assms(2) by (simp add: list_all_iff)
  ultimately show ?thesis by (simp add: Promise_all_def)
qed

lemma aliasWarnings_annotated:
  "\<forall>m \<in> set ms. aliases m \<noteq> None \<Longrightarrow> snd (aliasWarnings dp ms) = None"
  by (induction ms) (auto split: prod.splits)

lemma confirmAndRemove_confirmed:
  assumes "\<forall>m \<in> set ms. aliases m \<noteq> None"
    and "argv_yes a \<or> (\<exists>s. stdin_data w = Some s \<and> affirmative (trim s))"
  shows "removals (fst (confirmAndRemove dp w a ids c ms)) = map uid ms"
proof (cases "ms = []")
  case True
  then show ?thesis by (simp add: confirmAndRemove_def removals_Cons)
next
  case False
  have rb: "removals (fst (removeBatch dp w (argv_hard a) ms)) = map uid ms"
    by (rule removals_removeBatch)
  show ?thesis
  proof (cases "argv_yes a")
    case True
    with False rb show ?thesis
      by (simp add: confirmAndRemove_def Let_def removals_Cons case_prod_beta)
  next
    case no: False
    with assms(2) obtain s where s: "stdin_data w = Some s" "affirmative (trim s)" by blast
    from aliasWarnings_annotated [OF assms(1), of dp]
    have "\<exists>ws. aliasWarnings dp ms = (ws, None)" by (cases "aliasWarnings dp ms") simp
    then obtain ws where ws: "aliasWarnings dp ms = (ws, None)" ..
    have wr: "removals ws = []" using removals_aliasWarnings [of dp ms] ws by simp
    from ws s(1) have rc: "\<exists>es. readConfirmation dp w ms = (es, Fulfilled (trim s)) \<and> removals es = []"
      using wr by (simp add: readConfirmation_def removals_Cons)
    then obtain es where es: "readConfirmation dp w ms = (es, Fulfilled (trim s))" "removals es = []"
      by blast
    with False no s(2) rb show ?thesis
      by (simp add: confirmAndRemove_def Let_def removals_Cons case_prod_beta)
  qed
qed

lemma survivors_uids:
  "map uid (map (\<lambda>(m, al). m\<lparr>aliases := Some al\<rparr>)
      (filter (\<lambda>(m, al). \<not> (safe \<and> length al > 0)) (zip ms (map (\<lambda>m. projr (g m)) ms))))
   = map uid (filter (\<lambda>m. \<not> safe \<or> projr (g m) = []) ms)"
  by (induction ms) auto

lemma main_removals_exact:
  assumes reach: "drop 1 (argv_positional a) = ids" "ids \<noteq> []" "\<not> argv_help a" "ids ! 0 \<noteq> ''help''"
      "getScope w = Fulfilled c" "now_list w = Fulfilled D"
    and ms: "matches = resolve (dep_normalizeURL dp) ids D"
    and probes: "\<forall>m \<in> set matches. \<not> isl (getAliases w (uid m))"
      "\<forall>i < length matches. i \<in> set (aliases_settle w)"
    and confirmed: "argv_yes a \<or> (\<exists>s. stdin_data w = Some s \<and> affirmative (trim s))"
  shows "removals (fst (main dp w a))
           = map uid (filter (\<lambda>m. \<not> argv_safe a \<or> getAliases w (uid m) = Inr []) matches)"
proof -
  let ?rs = "map (\<lambda>depl. getAliases w (uid depl)) matches"
  define als where "als = map (\<lambda>m. projr (getAliases w (uid m))) matches"
  have pa: "Promise_all (aliases_settle w) ?rs = Fulfilled als"
    using Promise_all_all_fulfilled [of ?rs "aliases_settle w"] probes
    by (simp add: als_def comp_def)
  define filtered where
    "filtered = map (\<lambda>(m, al). m\<lparr>aliases := Some al\<rparr>)
                  (filter (\<lambda>(m, al). \<not> (argv_safe a \<and> length al > 0)) (zip matches als))"
  have sf: "safetyFilter (argv_safe a) als 0 matches = Inr filtered"
    by (simp add: safetyFilter_zip filtered_def als_def)
  have ann: "\<forall>m \<in> set filtered. aliases m \<noteq> None"
    by (auto simp: filtered_def)
  from probeAndFilter_Fulfilled [OF pa sf, of dp ids c]
  have "removals (fst (probeAndFilter dp w a ids c matches))
          = removals (fst (confirmAndRemove dp w a ids c filtered))"
    by (simp add: removals_Cons)
  also have "\<dots> = map uid filtered"
    by (rule confirmAndRemove_confirmed [OF ann confirmed])
  also have "\<dots> = map uid (filter (\<lambda>m. \<not> argv_safe a \<or> projr (getAliases w (uid m)) = []) matches)"
    unfolding filtered_def als_def by (rule survivors_uids)
  also have "\<dots> = map uid (filter (\<lambda>m. \<not> argv_safe a \<or> getAliases w (uid m) = Inr []) matches)"
  proof -
    have "filter (\<lambda>m. \<not> argv_safe a \<or> projr (getAliases w (uid m)) = []) matches
        = filter (\<lambda>m. \<not> argv_safe a \<or> getAliases w (uid m) = Inr []) matches"
    proof (rule filter_cong [OF refl])
      fix m assume "m \<in> set matches"
      with probes(1) have "\<not> isl (getAliases w (uid m))" by simp
      then show "(\<not> argv_safe a \<or> projr (getAliases w (uid m)) = [])
               = (\<not> argv_safe a \<or> getAliases w (uid m) = Inr [])"
        by (cases "getAliases w (uid m)") simp_all
    qed
    then show ?thesis by simp
  qed
  finally have "removals (fst (probeAndFilter dp w a ids c matches))
      = map uid (filter (\<lambda>m. \<not> argv_safe a \<or> getAliases w (uid m) = Inr []) matches)" .
  with main_probe [OF reach, of dp] ms show ?thesis
    by (simp add: removals_Cons)
qed

text \<open>
  C6: for a deployment list with pairwise distinct uids, the resolver returns only
  deployments of the list and none twice (the uids of the result are distinct); a
  deployment that several identifiers select is in the result exactly once. In a run on
  such a list the removal requests have distinct uids, all of listed deployments. In a
  run that reaches the batch remover (the scope and the listing are fetched, every alias
  probe is fulfilled, and the confirmation is skipped or answered with \<open>y\<close> or \<open>yes\<close>),
  the removal requests are exactly those for the resolved deployments that the safety
  filter keeps, in order: exactly one request is issued for each such deployment that
  some identifier selects, however many identifiers select it.
\<close>

theorem C6_no_duplicates:
  assumes "distinct (map uid D)"
  shows "set (resolve nu ids D) \<subseteq> set D
       \<and> distinct (map uid (resolve nu ids D))
       \<and> (\<forall>d \<in> set D. (\<exists>i \<in> set ids. uid d = i \<or> name d = i \<or> url d = nu i) \<longrightarrow>
             length (filter (\<lambda>x. uid x = uid d) (resolve nu ids D)) = 1)
       \<and> (now_list w = Fulfilled D \<longrightarrow>
             distinct (removals (fst (main dp w a)))
           \<and> set (removals (fst (main dp w a))) \<subseteq> uid ` set D
           \<and> (\<not> argv_safe a \<and> removals (fst (main dp w a)) \<noteq> [] \<longrightarrow>
                removals (fst (main dp w a))
                  = map uid (resolve (dep_normalizeURL dp) (drop 1 (argv_positional a)) D)))
       \<and> (now_list w = Fulfilled D \<and> getScope w = Fulfilled c
            \<and> drop 1 (argv_positional a) \<noteq> [] \<and> \<not> argv_help a \<and> drop 1 (argv_positional a) ! 0 \<noteq> ''help''
            \<and> (\<forall>m \<in> set (resolve (dep_normalizeURL dp) (drop 1 (argv_positional a)) D).
                   \<not> isl (getAliases w (uid m)))
            \<and> (\<forall>i < length (resolve (dep_normalizeURL dp) (drop 1 (argv_positional a)) D).
                   i \<in> set (aliases_settle w))
            \<and> (argv_yes a \<or> (\<exists>s. stdin_data w = Some s
                  \<and> trim s \<in> {''y'', ''Y'', ''yes'', ''yeS'', ''yEs'', ''yES'', ''Yes'', ''YeS'', ''YEs'', ''YES''}))
           \<longrightarrow>
             removals (fst (main dp w a))
               = map uid (filter (\<lambda>m. \<not> argv_safe a \<or> getAliases w (uid m) = Inr [])
                            (resolve (dep_normalizeURL dp) (drop 1 (argv_positional a)) D))
           \<and> (\<forall>d \<in> set D.
                 (\<exists>i \<in> set (drop 1 (argv_positional a)). uid d = i \<or> name d = i \<or> url d = dep_normalizeURL dp i)
                 \<and> (\<not> argv_safe a \<or> getAliases w (uid d) = Inr [])
                 \<longrightarrow> length (filter (\<lambda>u. u = uid d) (removals (fst (main dp w a)))) = 1))"
proof -
  have 1: "set (resolve nu ids D) \<subseteq> set D" by (simp add: resolve_def)
  have 2: "distinct (map uid (resolve nu ids D))" for nu ids
    using assms resolve_uids [of nu ids D] by simp
  have 3: "\<forall>d \<in> set D. (\<exists>i \<in> set ids. uid d = i \<or> name d = i \<or> url d = nu i) \<longrightarrow>
             length (filter (\<lambda>x. uid x = uid d) (resolve nu ids D)) = 1"
  proof (intro ballI impI)
    fix d assume "d \<in> set D" "\<exists>i \<in> set ids. uid d = i \<or> name d = i \<or> url d = nu i"
    then have "d \<in> set (resolve nu ids D)" by (simp add: resolve_filter)
    with 2 show "length (filter (\<lambda>x. uid x = uid d) (resolve nu ids D)) = 1"
      by (rule once_in_distinct)
  qed
  have 4: "now_list w = Fulfilled D \<longrightarrow>
             distinct (removals (fst (main dp w a)))
           \<and> set (removals (fst (main dp w a))) \<subseteq> uid ` set D
           \<and> (\<not> argv_safe a \<and> removals (fst (main dp w a)) \<noteq> [] \<longrightarrow>
                removals (fst (main dp w a))
                  = map uid (resolve (dep_normalizeURL dp) (drop 1 (argv_positional a)) D))"
  proof (intro impI conjI)
    assume L: "now_list w = Fulfilled D"
    from main_removals_distinct [OF L assms, of dp a]
    show "distinct (removals (fst (main dp w a)))"
      "set (removals (fst (main dp w a))) \<subseteq> uid ` set D" by simp_all
    assume "\<not> argv_safe a \<and> removals (fst (main dp w a)) \<noteq> []"
    then show "removals (fst (main dp w a))
                  = map uid (resolve (dep_normalizeURL dp) (drop 1 (argv_positional a)) D)"
      using main_removals_unsafe [OF L, of dp a] by simp
  qed
  let ?ids = "drop 1 (argv_positional a)"
  let ?ms = "resolve (dep_normalizeURL dp) ?ids D"
  let ?keep = "\<lambda>m. \<not> argv_safe a \<or> getAliases w (uid m) = Inr []"
  have 5: "now_list w = Fulfilled D \<and> getScope w = Fulfilled c
            \<and> ?ids \<noteq> [] \<and> \<not> argv_help a \<and> ?ids ! 0 \<noteq> ''help''
            \<and> (\<forall>m \<in> set ?ms. \<not> isl (getAliases w (uid m)))
            \<and> (\<forall>i < length ?ms. i \<in> set (aliases_settle w))
            \<and> (argv_yes a \<or> (\<exists>s. stdin_data w = Some s
                  \<and> trim s \<in> {''y'', ''Y'', ''yes'', ''yeS'', ''yEs'', ''yES'', ''Yes'', ''YeS'', ''YEs'', ''YES''}))
           \<longrightarrow>
             removals (fst (main dp w a)) = map uid (filter ?keep ?ms)
           \<and> (\<forall>d \<in> set D.
                 (\<exists>i \<in> set ?ids. uid d = i \<or> name d = i \<or> url d = dep_normalizeURL dp i) \<and> ?keep d
                 \<longrightarrow> length (filter (\<lambda>u. u = uid d) (removals (fst (main dp w a)))) = 1)"
  proof (intro impI, elim conjE)
    assume h: "now_list w = Fulfilled D" "getScope w = Fulfilled c" "?ids \<noteq> []" "\<not> argv_help a"
      "?ids ! 0 \<noteq> ''help''" "\<forall>m \<in> set ?ms. \<not> isl (getAliases w (uid m))"
      "\<forall>i < length ?ms. i \<in> set (aliases_settle w)"
      "argv_yes a \<or> (\<exists>s. stdin_data w = Some s
                  \<and> trim s \<in> {''y'', ''Y'', ''yes'', ''yeS'', ''yEs'', ''yES'', ''Yes'', ''YeS'', ''YEs'', ''YES''})"
    from h(8) have conf: "argv_yes a \<or> (\<exists>s. stdin_data w = Some s \<and> affirmative (trim s))"
      unfolding affirmative_iff .
    have ex: "removals (fst (main dp w a)) = map uid (filter ?keep ?ms)"
      by (rule main_removals_exact [OF refl h(3,4,5,2,1) refl h(6,7) conf])
    have once: "length (filter (\<lambda>u. u = uid d) (removals (fst (main dp w a)))) = 1"
      if d: "d \<in> set D" "\<exists>i \<in> set ?ids. uid d = i \<or> name d = i \<or> url d = dep_normalizeURL dp i" "?keep d"
      for d
    proof -
      from d(1,2) have "d \<in> set ?ms" by (simp add: resolve_filter)
      with d(3) have in_keep: "d \<in> set (filter ?keep ?ms)" by simp
      have dist: "distinct (map uid (filter ?keep ?ms))"
        using 2 [of "dep_normalizeURL dp" ?ids] by (rule distinct_map_filter)
      have "filter (\<lambda>u. u = uid d) (map uid (filter ?keep ?ms))
              = map uid (filter (\<lambda>y. uid y = uid d) (filter ?keep ?ms))"
        by (simp add: filter_map comp_def)
      then have "length (filter (\<lambda>u. u = uid d) (map uid (filter ?keep ?ms)))
              = length (filter (\<lambda>y. uid y = uid d) (filter ?keep ?ms))"
        by simp
      also have "\<dots> = 1" using dist in_keep by (rule once_in_distinct)
      finally show ?thesis unfolding ex .
    qed
    from ex once show "removals (fst (main dp w a)) = map uid (filter ?keep ?ms)
           \<and> (\<forall>d \<in> set D.
                 (\<exists>i \<in> set ?ids. uid d = i \<or> name d = i \<or> url d = dep_normalizeURL dp i) \<and> ?keep d
                 \<longrightarrow> length (filter (\<lambda>u. u = uid d) (removals (fst (main dp w a)))) = 1)"
      by simp
  qed
  show ?thesis
    by (rule conjI [OF 1 conjI [OF 2 conjI [OF 3 conjI [OF 4 5]]]])
qed

theorem C6_no_duplicates_witness:
  "resolve normalizeURL [''a1'', ''app''] [app_deployment, web_deployment] = [app_deployment]
   \<and> removals (fst (main plain ok_world (rm_args [''a1'', ''app'']))) = [''a1'']
   \<and> length (filter (\<lambda>u. u = ''a1'') (removals (fst (main plain ok_world (rm_args [''a1'', ''app'']))))) = 1"
proof -
  let ?a = "rm_args [''a1'', ''app'']"
  let ?D = "[app_deployment, web_deployment]"
  have d: "distinct (map uid ?D)"
    by (simp add: app_deployment_def web_deployment_def)
  have r: "resolve normalizeURL [''a1'', ''app''] ?D = [app_deployment]"
    by (simp add: run_defs)
  have ids: "drop 1 (argv_positional ?a) = [''a1'', ''app'']" "dep_normalizeURL plain = normalizeURL"
    "\<not> argv_safe ?a" "\<not> argv_help ?a"
    by (simp_all add: rm_args_def plain_def)
  note t = C6_no_duplicates [OF d, of normalizeURL "[''a1'', ''app'']" ok_world plain ?a "''me''"]
  note t5 = t [THEN conjunct2, THEN conjunct2, THEN conjunct2, THEN conjunct2]
  have h: "now_list ok_world = Fulfilled ?D \<and> getScope ok_world = Fulfilled ''me''
            \<and> drop 1 (argv_positional ?a) \<noteq> [] \<and> \<not> argv_help ?a \<and> drop 1 (argv_positional ?a) ! 0 \<noteq> ''help''
            \<and> (\<forall>m \<in> set (resolve (dep_normalizeURL plain) (drop 1 (argv_positional ?a)) ?D).
                   \<not> isl (getAliases ok_world (uid m)))
            \<and> (\<forall>i < length (resolve (dep_normalizeURL plain) (drop 1 (argv_positional ?a)) ?D).
                   i \<in> set (aliases_settle ok_world))
            \<and> (argv_yes ?a \<or> (\<exists>s. stdin_data ok_world = Some s
                  \<and> trim s \<in> {''y'', ''Y'', ''yes'', ''yeS'', ''yEs'', ''yES'', ''Yes'', ''YeS'', ''YEs'', ''YES''}))"
    unfolding ids(1,2) r
    by (simp add: ok_world_def rm_args_def trim_def isWhiteSpace_def)
  from t5 [THEN mp, OF h]
  have e: "removals (fst (main plain ok_world ?a)) = [''a1'']"
    and o: "length (filter (\<lambda>u. u = uid app_deployment) (removals (fst (main plain ok_world ?a)))) = 1"
    unfolding ids(1,2) r by (simp_all add: rm_args_def app_deployment_def)
  from r e o show ?thesis by (simp add: app_deployment_def)
qed

subsection \<open>The error classes (C9)\<close>

lemma copy_body_other:
  "k \<notin> fst ` set b \<Longrightarrow> map_of (copy_body b obj) k = map_of obj k"
  unfolding copy_body_def
  by (induction b arbitrary: obj) (auto simp: AList.update_conv')

lemma APIError_code:
  assumes "case body of None \<Rightarrow> True | Some b \<Rightarrow> ''code'' \<notin> fst ` set b"
  shows "map_of (APIError msg resp body) ''code'' = None"
  using assms
  by (cases body)
     (simp_all add: APIError_def Let_def AList.update_conv' copy_body_other split: option.splits)

lemma APIError_status:
  assumes "case body of None \<Rightarrow> True | Some b \<Rightarrow> ''status'' \<notin> fst ` set b"
  shows "map_of (APIError msg resp body) ''status'' = Some (Num (int (status resp)))"
  using assms
  by (cases body)
     (simp_all add: APIError_def Let_def AList.update_conv' copy_body_other split: option.splits)

text \<open>
  C9, as stated, fails: an \<open>APIError\<close> built from a response without a payload has the
  properties \<open>message\<close>, \<open>status\<close> and \<open>serverMessage\<close> only, and neither a \<open>code\<close> nor a
  \<open>kind\<close>.
\<close>

theorem C9_counterexample:
  "map_of (APIError ''Not Found'' not_found_response None) ''code'' = None
   \<and> map_of (APIError ''Not Found'' not_found_response None) ''kind'' = None
   \<and> map fst (APIError ''Not Found'' not_found_response None) = [''message'', ''status'', ''serverMessage'']"
  by (simp add: APIError_def not_found_response_def Let_def)

text \<open>
  C9 (amended): each subclass of \<open>NowError\<close> in \<open>errors-ts.ts\<close> carries a fixed code, and
  the six codes are pairwise distinct. An \<open>APIError\<close> has no code of its own: it has one
  only if the payload has a field \<open>code\<close>. It carries the HTTP status of the response
  (for a payload without a field \<open>status\<close>) and, for a response with status 429 and a
  non-empty \<open>Retry-After\<close> header, the property \<open>retryAfter\<close> with that header parsed
  as a decimal integer.
\<close>

theorem C9_error_discriminants:
  "map_of (TeamDeleted param) ''code'' = Some (Str ''team_deleted'')
   \<and> map_of InvalidToken ''code'' = Some (Str ''not_authorized'')
   \<and> map_of MissingUser ''code'' = Some (Str ''missing_user'')
   \<and> map_of (ConflictingOption option_name) ''code'' = Some (Str ''conflicting_option'')
   \<and> map_of (DomainPermissionDenied domain context_name) ''code'' = Some (Str ''DOMAIN_PERMISSION_DENIED'')
   \<and> map_of (DomainNotFound domain) ''code'' = Some (Str ''DOMAIN_NOT_FOUND'')
   \<and> distinct [''team_deleted'', ''not_authorized'', ''missing_user'', ''conflicting_option'',
                ''DOMAIN_PERMISSION_DENIED'', ''DOMAIN_NOT_FOUND'']
   \<and> ((case body of None \<Rightarrow> True | Some b \<Rightarrow> ''code'' \<notin> fst ` set b) \<longrightarrow>
        map_of (APIError msg resp body) ''code'' = None)
   \<and> ((case body of None \<Rightarrow> True | Some b \<Rightarrow> ''status'' \<notin> fst ` set b) \<longrightarrow>
        map_of (APIError msg resp body) ''status'' = Some (Num (int (status resp))))
   \<and> (status resp = 429 \<and> headers_get resp ''Retry-After'' = Some h \<and> h \<noteq> [] \<longrightarrow>
        map_of (APIError msg resp body) ''retryAfter'' = Some (parseInt10 h))"
proof -
  have 1: "map_of (TeamDeleted param) ''code'' = Some (Str ''team_deleted'')"
    "map_of InvalidToken ''code'' = Some (Str ''not_authorized'')"
    "map_of MissingUser ''code'' = Some (Str ''missing_user'')"
    "map_of (ConflictingOption option_name) ''code'' = Some (Str ''conflicting_option'')"
    "map_of (DomainPermissionDenied domain context_name) ''code'' = Some (Str ''DOMAIN_PERMISSION_DENIED'')"
    "map_of (DomainNotFound domain) ''code'' = Some (Str ''DOMAIN_NOT_FOUND'')"
    by (simp_all add: NowError_def TeamDeleted_def InvalidToken_def MissingUser_def
        ConflictingOption_def DomainPermissionDenied_def DomainNotFound_def)
  have 2: "distinct [''team_deleted'', ''not_authorized'', ''missing_user'', ''conflicting_option'',
                ''DOMAIN_PERMISSION_DENIED'', ''DOMAIN_NOT_FOUND'']"
    by simp
  have 3: "(case body of None \<Rightarrow> True | Some b \<Rightarrow> ''code'' \<notin> fst ` set b) \<longrightarrow>
        map_of (APIError msg resp body) ''code'' = None"
    by (rule impI) (rule APIError_code)
  have 4: "(case body of None \<Rightarrow> True | Some b \<Rightarrow> ''status'' \<notin> fst ` set b) \<longrightarrow>
        map_of (APIError msg resp body) ''status'' = Some (Num (int (status resp)))"
    by (rule impI) (rule APIError_status)
  have 5: "status resp = 429 \<and> headers_get resp ''Retry-After'' = Some h \<and> h \<noteq> [] \<longrightarrow>
        map_of (APIError msg resp body) ''retryAfter'' = Some (parseInt10 h)"
    by (simp add: APIError_def Let_def AList.update_conv')
  show ?thesis
    by (intro conjI 1 2 3 4 5)
qed

theorem C9_error_discriminants_witness:
  "map_of (APIError ''Too many requests'' rate_limit_response (Some [(''limit'', Num 10)])) ''code'' = None
   \<and> map_of (APIError ''Too many requests'' rate_limit_response (Some [(''limit'', Num 10)])) ''status''
       = Some (Num 429)
   \<and> map_of (APIError ''Too many requests'' rate_limit_response (Some [(''limit'', Num 10)])) ''retryAfter''
       = Some (Num 120)"
proof -
  have p: "parseInt10 ''120'' = Num 120"
    by (simp add: parseInt10_def isWhiteSpace_def isDigit_def digits_value_def Let_def)
  from C9_error_discriminants [of _ _ _ _ "Some [(''limit'', Num 10)]" "''Too many requests''"
      rate_limit_response "''120''"] p
  show ?thesis
    by (simp add: rate_limit_response_def)
qed

end
